theory Spec2Isabelle
  imports Complex_Main "HOL-Library.AList"
begin

section \<open>Python's decimal arithmetic under the repository's context\<close>

text \<open>
  Every module of the package sets \<^verbatim>\<open>getcontext().prec = 15\<close> and
  \<^verbatim>\<open>getcontext().rounding = ROUND_HALF_UP\<close>.  A finite \<^verbatim>\<open>Decimal\<close> is a
  coefficient and an exponent; the sign is kept in the coefficient (the program never
  observes the sign of a zero).  Results of \<^verbatim>\<open>+\<close>, \<^verbatim>\<open>-\<close>, \<^verbatim>\<open>*\<close> and \<^verbatim>\<open>/\<close>
  are the exact result rounded to at most 15 digits, half away from zero.  The exponent
  limits of the context (Emax = 999999) are not modelled.
\<close>

datatype decimal = Dec (coeff: int) (expo: int)

datatype error =
    UnsupportedFrequency  \<comment> \<open>\<^verbatim>\<open>ValueError("Unsupported Payment Frequency: ...")\<close>\<close>
  | DateOutOfRange        \<comment> \<open>\<^verbatim>\<open>datetime\<close>: a date would leave the years 1..9999\<close>
  | KeyError              \<comment> \<open>a dictionary has no such key\<close>
  | DivisionByZero        \<comment> \<open>\<^verbatim>\<open>decimal\<close>: x / 0 with x nonzero\<close>
  | InvalidOperation      \<comment> \<open>\<^verbatim>\<open>decimal\<close>: 0 / 0, or a quantize result of more than prec digits\<close>

definition bind_err :: "error + 'a \<Rightarrow> ('a \<Rightarrow> error + 'b) \<Rightarrow> error + 'b" where
  "bind_err m f = (case m of Inl e \<Rightarrow> Inl e | Inr x \<Rightarrow> f x)"

definition prec :: nat where
  "prec = 15"

function ndigits :: "int \<Rightarrow> nat" where
  \<comment> \<open>the number of decimal digits of a coefficient's magnitude
      (\<^verbatim>\<open>len(self._int)\<close>)\<close>
  "ndigits n = (if n < 10 then 1 else Suc (ndigits (n div 10)))"
  by pat_completeness auto
termination
  by (relation "measure nat") auto

declare ndigits.simps [simp del]

definition round_half_up :: "int \<Rightarrow> nat \<Rightarrow> int" where
  \<comment> \<open>drop the last \<open>k\<close> digits of a coefficient, rounding half away from zero\<close>
  "round_half_up c k = sgn c * ((\<bar>c\<bar> + 10 ^ k div 2) div 10 ^ k)"

definition dec_fix :: "decimal \<Rightarrow> decimal" where
  \<comment> \<open>\<^verbatim>\<open>Decimal._fix\<close>: round to the context precision\<close>
  "dec_fix d =
     (let n = ndigits \<bar>coeff d\<bar> in
      if n \<le> prec then d
      else let k = n - prec; c = round_half_up (coeff d) k in
           if ndigits \<bar>c\<bar> > prec then Dec (c div 10) (expo d + int k + 1)
           else Dec c (expo d + int k))"

definition dec_add :: "decimal \<Rightarrow> decimal \<Rightarrow> decimal" where
  "dec_add a b =
     (let e = min (expo a) (expo b) in
      dec_fix (Dec (coeff a * 10 ^ nat (expo a - e) + coeff b * 10 ^ nat (expo b - e)) e))"

definition dec_neg :: "decimal \<Rightarrow> decimal" where
  "dec_neg a = Dec (- coeff a) (expo a)"

definition dec_sub :: "decimal \<Rightarrow> decimal \<Rightarrow> decimal" where
  "dec_sub a b = dec_add a (dec_neg b)"

definition dec_mul :: "decimal \<Rightarrow> decimal \<Rightarrow> decimal" where
  "dec_mul a b = dec_fix (Dec (coeff a * coeff b) (expo a + expo b))"

function strip_zeros :: "int \<Rightarrow> int \<Rightarrow> int \<Rightarrow> int \<times> int" where
  \<comment> \<open>exact quotient: \<^verbatim>\<open>while exp < ideal_exp and coeff % 10 == 0\<close>\<close>
  "strip_zeros c e ideal =
     (if e < ideal \<and> c mod 10 = 0 then strip_zeros (c div 10) (e + 1) ideal else (c, e))"
  by pat_completeness auto
termination
  by (relation "measure (\<lambda>(c, e, ideal). nat (ideal - e))") auto

declare strip_zeros.simps [simp del]

definition dec_div :: "decimal \<Rightarrow> decimal \<Rightarrow> error + decimal" where
  \<comment> \<open>\<^verbatim>\<open>Decimal.__truediv__\<close>\<close>
  "dec_div a b =
     (if coeff b = 0 then (if coeff a = 0 then Inl InvalidOperation else Inl DivisionByZero)
      else if coeff a = 0 then Inr (dec_fix (Dec 0 (expo a - expo b)))
      else
        let s = sgn (coeff a) * sgn (coeff b);
            x = \<bar>coeff a\<bar>; y = \<bar>coeff b\<bar>;
            shift = int (ndigits y) - int (ndigits x) + int prec + 1;
            e = expo a - expo b - shift;
            num = (if shift \<ge> 0 then x * 10 ^ nat shift else x);
            den = (if shift \<ge> 0 then y else y * 10 ^ nat (- shift));
            q = num div den; r = num mod den
        in if r \<noteq> 0 then Inr (dec_fix (Dec (s * (if q mod 5 = 0 then q + 1 else q)) e))
           else case strip_zeros q e (expo a - expo b) of
                  (q', e') \<Rightarrow> Inr (dec_fix (Dec (s * q') e')))"

definition adjusted :: "decimal \<Rightarrow> int" where
  "adjusted d = expo d + int (ndigits \<bar>coeff d\<bar>) - 1"

definition rescale :: "decimal \<Rightarrow> int \<Rightarrow> decimal" where
  \<comment> \<open>\<^verbatim>\<open>Decimal._rescale\<close> with ROUND_HALF_UP\<close>
  "rescale d e =
     (if coeff d = 0 then Dec 0 e
      else if expo d \<ge> e then Dec (coeff d * 10 ^ nat (expo d - e)) e
      else Dec (round_half_up (coeff d) (nat (e - expo d))) e)"

definition quantize :: "decimal \<Rightarrow> int \<Rightarrow> error + decimal" where
  \<comment> \<open>\<^verbatim>\<open>Decimal.quantize\<close>; the program only calls it with \<^verbatim>\<open>Decimal("0.01")\<close>\<close>
  "quantize d e =
     (if coeff d = 0 then Inr (Dec 0 e)
      else if adjusted d - e + 1 > int prec then Inl InvalidOperation
      else let ans = rescale d e in
           if ndigits \<bar>coeff ans\<bar> > prec then Inl InvalidOperation
           else Inr ans)"

definition CENTS :: int where
  \<comment> \<open>the exponent of \<^verbatim>\<open>Decimal("0.01")\<close>\<close>
  "CENTS = - 2"

definition dec_val :: "decimal \<Rightarrow> rat" where
  \<comment> \<open>the number a \<^verbatim>\<open>Decimal\<close> denotes\<close>
  "dec_val d = of_int (coeff d) * power_int 10 (expo d)"

definition dec_gt_zero :: "decimal \<Rightarrow> bool" where
  "dec_gt_zero d = (coeff d > 0)"



section \<open>Calendar dates\<close>

text \<open>
  \<^verbatim>\<open>datetime.date\<close> in the proleptic Gregorian calendar, with the operations the
  payment calendar uses: \<^verbatim>\<open>toordinal\<close>, \<^verbatim>\<open>weekday\<close> (Monday is 0), the difference
  in days, \<^verbatim>\<open>+ timedelta(days=1)\<close>, \<^verbatim>\<open>replace(day=..)\<close>, and dateutil's
  \<^verbatim>\<open>+ relativedelta(months=k)\<close> and \<^verbatim>\<open>+ relativedelta(day=31)\<close>.
\<close>

datatype date = Date (year: int) (month: int) (day: int)

definition is_leap :: "int \<Rightarrow> bool" where
  "is_leap y = (y mod 4 = 0 \<and> (y mod 100 \<noteq> 0 \<or> y mod 400 = 0))"

definition days_in_month :: "int \<Rightarrow> int \<Rightarrow> int" where
  "days_in_month y m =
     (if m = 2 then (if is_leap y then 29 else 28)
      else if m = 4 \<or> m = 6 \<or> m = 9 \<or> m = 11 then 30 else 31)"

definition days_before_year :: "int \<Rightarrow> int" where
  "days_before_year y = (let p = y - 1 in p * 365 + p div 4 - p div 100 + p div 400)"

definition days_before_month :: "int \<Rightarrow> int \<Rightarrow> int" where
  "days_before_month y m = sum_list (map (days_in_month y) [1..m - 1])"

definition toordinal :: "date \<Rightarrow> int" where
  "toordinal d = days_before_year (year d) + days_before_month (year d) (month d) + day d"

definition weekday :: "date \<Rightarrow> int" where
  "weekday d = (toordinal d + 6) mod 7"

definition days_between :: "date \<Rightarrow> date \<Rightarrow> int" where
  \<comment> \<open>\<^verbatim>\<open>(a - b).days\<close>\<close>
  "days_between a b = toordinal a - toordinal b"

definition next_day :: "date \<Rightarrow> error + date" where
  \<comment> \<open>\<^verbatim>\<open>d + timedelta(days=1)\<close>\<close>
  "next_day d =
     (if day d < days_in_month (year d) (month d) then Inr (Date (year d) (month d) (day d + 1))
      else if month d < 12 then Inr (Date (year d) (month d + 1) 1)
      else if year d < 9999 then Inr (Date (year d + 1) 1 1)
      else Inl DateOutOfRange)"

definition add_months :: "date \<Rightarrow> int \<Rightarrow> error + date" where
  \<comment> \<open>\<^verbatim>\<open>d + relativedelta(months=k)\<close> for 1 \<le> k \<le> 12\<close>
  "add_months d k =
     (let m = month d + k;
          y = (if m > 12 then year d + 1 else year d);
          m' = (if m > 12 then m - 12 else m)
      in if y > 9999 then Inl DateOutOfRange
         else Inr (Date y m' (min (days_in_month y m') (day d))))"

definition replace_day :: "date \<Rightarrow> int \<Rightarrow> date" where
  \<comment> \<open>\<^verbatim>\<open>try: d.replace(day=k)  except ValueError: d + relativedelta(day=31)\<close>\<close>
  "replace_day d k =
     (if 1 \<le> k \<and> k \<le> days_in_month (year d) (month d) then Date (year d) (month d) k
      else Date (year d) (month d) (min (days_in_month (year d) (month d)) 31))"

function next_business_day :: "(date \<Rightarrow> bool) \<Rightarrow> date \<Rightarrow> error + date" where
  \<comment> \<open>\<^verbatim>\<open>while d.weekday() >= 5 or d in holiday_calendar: d += timedelta(days=1)\<close>\<close>
  "next_business_day hol d =
     (if weekday d \<ge> 5 \<or> hol d
      then (case next_day d of Inl e \<Rightarrow> Inl e | Inr d' \<Rightarrow> next_business_day hol d')
      else Inr d)"
  by pat_completeness auto
termination
proof (relation "measure (\<lambda>(hol, d).
          nat (9999 - year d) * 372 + nat (12 - month d) * 31 + nat (31 - day d))")
  show "wf (measure (\<lambda>(hol, d).
          nat (9999 - year d) * 372 + nat (12 - month d) * 31 + nat (31 - day d)))"
    by simp
next
  fix hol :: "date \<Rightarrow> bool" and d d' :: date
  assume "next_day d = Inr d'"
  moreover have "days_in_month (year d) (month d) \<le> 31"
    by (simp add: days_in_month_def)
  ultimately show "((hol, d'), (hol, d)) \<in> measure (\<lambda>(hol, d).
          nat (9999 - year d) * 372 + nat (12 - month d) * 31 + nat (31 - day d))"
    by (auto simp: next_day_def split: if_splits)
qed

declare next_business_day.simps [simp del]


section \<open>PaymentCalendar\<close>

text \<open>
  The dictionaries keyed by installment number are association lists in insertion
  order; \<^verbatim>\<open>d[k] = v\<close> is \<^const>\<open>AList.update\<close> and \<^verbatim>\<open>d[k]\<close> raises
  \<^verbatim>\<open>KeyError\<close> on a missing key.  The holiday calendar of the \<^verbatim>\<open>holidays\<close>
  package is a predicate on dates.  The list \<^verbatim>\<open>accrual_date_ranges\<close>, which no
  computation reads back, is left out.
\<close>

record calendar =
  cal_start_date :: date
  term_in_months :: int
  cal_payment_frequency :: string
  holiday_calendar :: "date \<Rightarrow> bool"
  cal_payment_dates :: "(int \<times> date) list"
  cal_accrual_days :: "(int \<times> int) list"
  turkish_banking_accrual_days :: "(int \<times> int) list"

definition lookup :: "(int \<times> 'a) list \<Rightarrow> int \<Rightarrow> error + 'a" where
  "lookup al k = (case map_of al k of None \<Rightarrow> Inl KeyError | Some v \<Rightarrow> Inr v)"

definition PaymentCalendar :: "date \<Rightarrow> int \<Rightarrow> string \<Rightarrow> (date \<Rightarrow> bool) \<Rightarrow> calendar" where
  \<comment> \<open>\<^verbatim>\<open>PaymentCalendar.__init__\<close>\<close>
  "PaymentCalendar start term freq hol =
     \<lparr>cal_start_date = start, term_in_months = term, cal_payment_frequency = freq,
      holiday_calendar = hol, cal_payment_dates = [], cal_accrual_days = [],
      turkish_banking_accrual_days = []\<rparr>"

definition frequency_to_days :: "string \<Rightarrow> error + int" where
  \<comment> \<open>\<^verbatim>\<open>PaymentCalendar._frequency_to_days\<close>\<close>
  "frequency_to_days freq =
     (if freq = ''1m'' then Inr 30
      else if freq = ''3m'' then Inr 90
      else if freq = ''6m'' then Inr 180
      else Inl UnsupportedFrequency)"

definition schedule_step :: "int \<Rightarrow> int \<Rightarrow> date \<times> calendar \<Rightarrow> int \<Rightarrow> error + date \<times> calendar" where
  \<comment> \<open>one pass of the loop body of \<^verbatim>\<open>generate_schedule\<close>; the state is
      \<^verbatim>\<open>nominal_base_date\<close> and the object\<close>
  "schedule_step delta current_payment_day st i =
     (case st of (nominal_base_date, cal) \<Rightarrow>
      bind_err (add_months nominal_base_date delta) (\<lambda>scheduled0.
      bind_err (next_business_day (holiday_calendar cal)
                  (replace_day scheduled0 current_payment_day)) (\<lambda>scheduled_date.
      bind_err (if i > 1 then lookup (cal_payment_dates cal) (i - 1)
                else Inr (cal_start_date cal)) (\<lambda>accrual_start.
      bind_err (frequency_to_days (cal_payment_frequency cal)) (\<lambda>fd.
      bind_err (add_months nominal_base_date delta) (\<lambda>nominal'.
      Inr (nominal',
           cal\<lparr>cal_payment_dates := AList.update i scheduled_date (cal_payment_dates cal),
               cal_accrual_days :=
                 AList.update i (days_between scheduled_date accrual_start) (cal_accrual_days cal),
               turkish_banking_accrual_days :=
                 AList.update i fd (turkish_banking_accrual_days cal)\<rparr>)))))))"

fun schedule_loop :: "int \<Rightarrow> int \<Rightarrow> date \<times> calendar \<Rightarrow> int list \<Rightarrow> error + date \<times> calendar" where
  "schedule_loop delta cpd st [] = Inr st"
| "schedule_loop delta cpd st (i # is) =
     bind_err (schedule_step delta cpd st i) (\<lambda>st'. schedule_loop delta cpd st' is)"

definition generate_schedule :: "calendar \<Rightarrow> error + calendar" where
  \<comment> \<open>\<^verbatim>\<open>PaymentCalendar.generate_schedule\<close>: the updated object, whose
      \<^const>\<open>cal_payment_dates\<close> is the value returned\<close>
  "generate_schedule cal =
     bind_err (if cal_payment_frequency cal = ''1m'' then Inr 1
               else if cal_payment_frequency cal = ''3m'' then Inr 3
               else if cal_payment_frequency cal = ''6m'' then Inr 6
               else Inl UnsupportedFrequency) (\<lambda>delta.
     bind_err (frequency_to_days (cal_payment_frequency cal)) (\<lambda>fd.
     bind_err (schedule_loop delta (day (cal_start_date cal)) (cal_start_date cal, cal)
                 [1..term_in_months cal * 30 div fd]) (\<lambda>(nominal, cal'). Inr cal')))"

definition get_accrual_days :: "calendar \<Rightarrow> error + calendar" where
  \<comment> \<open>\<^verbatim>\<open>PaymentCalendar.get_accrual_days\<close>: regenerates when the dictionary is empty\<close>
  "get_accrual_days cal =
     (if cal_accrual_days cal = [] then generate_schedule cal else Inr cal)"


section \<open>Amortization rows and loan objects\<close>

record row =
  installment_number :: int
  payment_date :: date
  accrual_days :: int
  principal_payment :: decimal
  interest_payment :: decimal
  commission_payment :: decimal
  bsmv :: decimal
  installment_amount :: decimal
  remaining_principal :: decimal

record loan =
  principal :: decimal
  monthly_interest_rate :: decimal
  commission :: decimal
  start_date :: date
  loan_term :: int
  payment_frequency :: string
  bsmv_rate :: decimal
  payment_dates :: "(int \<times> date) list"
  num_payments :: int
  fixed_accrual_days :: "(int \<times> int) list"

record equal_principal_loan = loan +
  use_variable_accrual_days :: bool
  actual_accrual_days :: "(int \<times> int) list"
  fixed_principal :: decimal

record equal_installment_loan = loan +
  fixed_installment :: decimal

definition commission_row :: "'a loan_scheme \<Rightarrow> error + row list" where
  \<comment> \<open>the block \<^verbatim>\<open>if self.commission > 0: ... schedule.append({...})\<close>, the same in
      both classes\<close>
  "commission_row l =
     (if dec_gt_zero (commission l) then
        bind_err (quantize (dec_mul (principal l) (commission l)) CENTS) (\<lambda>commission_amount.
        bind_err (quantize (dec_mul commission_amount (bsmv_rate l)) CENTS) (\<lambda>commission_bsmv.
        bind_err (quantize (dec_add commission_amount commission_bsmv) CENTS) (\<lambda>inst.
        bind_err (quantize (principal l) CENTS) (\<lambda>rem.
        Inr [\<lparr>installment_number = 0, payment_date = start_date l, accrual_days = 0,
              principal_payment = Dec 0 (- 2), interest_payment = Dec 0 (- 2),
              commission_payment = commission_amount, bsmv = commission_bsmv,
              installment_amount = inst, remaining_principal = rem\<rparr>]))))
      else Inr [])"

definition fixed_period_rate :: "'a loan_scheme \<Rightarrow> decimal" where
  \<comment> \<open>the chain \<^verbatim>\<open>if "1m" ... elif "3m" ... else\<close> of both classes\<close>
  "fixed_period_rate l =
     (if payment_frequency l = ''1m'' then monthly_interest_rate l
      else if payment_frequency l = ''3m'' then dec_mul (monthly_interest_rate l) (Dec 3 0)
      else dec_mul (monthly_interest_rate l) (Dec 6 0))"

section \<open>EqualPrincipalLoan\<close>

definition EqualPrincipalLoan ::
  "decimal \<Rightarrow> decimal \<Rightarrow> decimal \<Rightarrow> date \<Rightarrow> int \<Rightarrow> string \<Rightarrow> decimal \<Rightarrow> (date \<Rightarrow> bool) \<Rightarrow> bool
     \<Rightarrow> error + equal_principal_loan" where
  \<comment> \<open>\<^verbatim>\<open>EqualPrincipalLoan.__init__\<close>; the country is represented by its holiday predicate\<close>
  "EqualPrincipalLoan p rate comm start term freq bsmvr hol variable =
     bind_err (generate_schedule (PaymentCalendar start term freq hol)) (\<lambda>cal1.
     bind_err (get_accrual_days cal1) (\<lambda>cal2.
     let n = int (length (cal_payment_dates cal1));
         fixed_days = (if freq = ''1m'' then 30 else if freq = ''3m'' then 90 else 180)
     in bind_err (dec_div p (Dec n 0)) (\<lambda>fp.
        Inr \<lparr>principal = p, monthly_interest_rate = rate, commission = comm,
             start_date = start, loan_term = term, payment_frequency = freq,
             bsmv_rate = bsmvr, payment_dates = cal_payment_dates cal2, num_payments = n,
             fixed_accrual_days = map (\<lambda>k. (k, fixed_days)) [1..n],
             use_variable_accrual_days = variable,
             actual_accrual_days = cal_accrual_days cal2,
             fixed_principal = fp\<rparr>)))"

definition ep_step :: "equal_principal_loan \<Rightarrow> decimal \<times> row list \<Rightarrow> int \<Rightarrow> error + decimal \<times> row list" where
  \<comment> \<open>the body of \<^verbatim>\<open>for k in range(1, self.num_payments + 1)\<close>; the state is
      \<^verbatim>\<open>remaining_principal\<close> and \<^verbatim>\<open>schedule\<close>\<close>
  "ep_step l st k =
     (case st of (remaining, schedule) \<Rightarrow>
      bind_err (if use_variable_accrual_days l then
                  bind_err (lookup (actual_accrual_days l) k) (\<lambda>days.
                  bind_err (dec_div (Dec days 0) (Dec 30 0)) (\<lambda>days_ratio.
                  Inr (dec_mul (monthly_interest_rate l) days_ratio, days)))
                else
                  bind_err (lookup (fixed_accrual_days l) k) (\<lambda>days.
                  Inr (fixed_period_rate l, days))) (\<lambda>(period_rate, days).
      bind_err (quantize (dec_mul remaining period_rate) CENTS) (\<lambda>interest.
      bind_err (quantize (dec_mul interest (bsmv_rate l)) CENTS) (\<lambda>tax.
      bind_err (quantize (dec_add (dec_add (fixed_principal l) interest) tax) CENTS) (\<lambda>installment.
      bind_err (lookup (payment_dates l) k) (\<lambda>pdate.
      bind_err (quantize (fixed_principal l) CENTS) (\<lambda>pp.
      bind_err (quantize (dec_sub remaining (fixed_principal l)) CENTS) (\<lambda>rem.
      Inr (dec_sub remaining (fixed_principal l),
           schedule @ [\<lparr>installment_number = k, payment_date = pdate, accrual_days = days,
                         principal_payment = pp, interest_payment = interest,
                         commission_payment = Dec 0 (- 2), bsmv = tax,
                         installment_amount = installment, remaining_principal = rem\<rparr>])))))))))"

fun ep_loop :: "equal_principal_loan \<Rightarrow> decimal \<times> row list \<Rightarrow> int list \<Rightarrow> error + decimal \<times> row list" where
  "ep_loop l st [] = Inr st"
| "ep_loop l st (k # ks) = bind_err (ep_step l st k) (\<lambda>st'. ep_loop l st' ks)"

definition ep_calculate_schedule :: "equal_principal_loan \<Rightarrow> error + row list" where
  \<comment> \<open>\<^verbatim>\<open>EqualPrincipalLoan.calculate_schedule\<close>\<close>
  "ep_calculate_schedule l =
     bind_err (commission_row l) (\<lambda>schedule.
     bind_err (ep_loop l (principal l, schedule) [1..num_payments l]) (\<lambda>(remaining, schedule').
     Inr schedule'))"


section \<open>EqualInstallmentLoan\<close>

definition dec_pow :: "decimal \<Rightarrow> int \<Rightarrow> error + decimal" where
  \<comment> \<open>\<^verbatim>\<open>x ** Decimal(str(n))\<close> for the integer \<open>n \<ge> 0\<close> that \<^verbatim>\<open>len\<close> returns: the
      exact power rounded to the context precision (the library documents its result as
      correctly rounded in almost all cases, and exact results are exact)\<close>
  "dec_pow x n =
     (if n = 0 then (if coeff x = 0 then Inl InvalidOperation else Inr (Dec 1 0))
      else Inr (dec_fix (Dec (coeff x ^ nat n) (expo x * n))))"

definition EqualInstallmentLoan ::
  "decimal \<Rightarrow> decimal \<Rightarrow> decimal \<Rightarrow> date \<Rightarrow> int \<Rightarrow> string \<Rightarrow> decimal \<Rightarrow> (date \<Rightarrow> bool)
     \<Rightarrow> error + equal_installment_loan" where
  \<comment> \<open>\<^verbatim>\<open>EqualInstallmentLoan.__init__\<close>\<close>
  "EqualInstallmentLoan p rate comm start term freq bsmvr hol =
     bind_err (generate_schedule (PaymentCalendar start term freq hol)) (\<lambda>cal1.
     let n = int (length (cal_payment_dates cal1)) in
     bind_err (frequency_to_days freq) (\<lambda>days_in_period.
     bind_err (dec_div (Dec days_in_period 0) (Dec 30 0)) (\<lambda>period_multiplier.
     let period_rate = dec_mul rate period_multiplier;
         period_rate_prime = dec_add period_rate (dec_mul period_rate bsmvr)
     in bind_err (dec_pow (dec_add (Dec 10 (- 1)) period_rate_prime) n) (\<lambda>one_plus_r_pow_n.
        bind_err (dec_div (dec_mul (dec_mul p period_rate_prime) one_plus_r_pow_n)
                    (dec_sub one_plus_r_pow_n (Dec 10 (- 1)))) (\<lambda>t.
        Inr \<lparr>principal = p, monthly_interest_rate = rate, commission = comm,
             start_date = start, loan_term = term, payment_frequency = freq,
             bsmv_rate = bsmvr, payment_dates = cal_payment_dates cal1, num_payments = n,
             fixed_accrual_days = turkish_banking_accrual_days cal1,
             fixed_installment = t\<rparr>)))))"

definition ei_step :: "equal_installment_loan \<Rightarrow> decimal \<times> row list \<Rightarrow> int \<Rightarrow> error + decimal \<times> row list" where
  "ei_step l st k =
     (case st of (remaining, schedule) \<Rightarrow>
      bind_err (quantize (dec_mul remaining (fixed_period_rate l)) CENTS) (\<lambda>interest.
      bind_err (quantize (dec_mul interest (bsmv_rate l)) CENTS) (\<lambda>tax.
      bind_err (quantize (dec_sub (dec_sub (fixed_installment l) interest) tax) CENTS) (\<lambda>pp.
      bind_err (quantize (dec_add (dec_add pp interest) tax) CENTS) (\<lambda>installment.
      bind_err (lookup (payment_dates l) k) (\<lambda>pdate.
      bind_err (lookup (fixed_accrual_days l) k) (\<lambda>days.
      bind_err (quantize (dec_sub remaining pp) CENTS) (\<lambda>rem.
      Inr (dec_sub remaining pp,
           schedule @ [\<lparr>installment_number = k, payment_date = pdate, accrual_days = days,
                         principal_payment = pp, interest_payment = interest,
                         commission_payment = Dec 0 (- 2), bsmv = tax,
                         installment_amount = installment, remaining_principal = rem\<rparr>])))))))))"

fun ei_loop :: "equal_installment_loan \<Rightarrow> decimal \<times> row list \<Rightarrow> int list \<Rightarrow> error + decimal \<times> row list" where
  "ei_loop l st [] = Inr st"
| "ei_loop l st (k # ks) = bind_err (ei_step l st k) (\<lambda>st'. ei_loop l st' ks)"

definition ei_calculate_schedule :: "equal_installment_loan \<Rightarrow> error + row list" where
  \<comment> \<open>\<^verbatim>\<open>EqualInstallmentLoan.calculate_schedule\<close>\<close>
  "ei_calculate_schedule l =
     bind_err (commission_row l) (\<lambda>schedule.
     bind_err (ei_loop l (principal l, schedule) [1..num_payments l]) (\<lambda>(remaining, schedule').
     Inr schedule'))"

section \<open>Average maturity and all-in rate\<close>










section \<open>Notions used to state the properties\<close>

definition no_holidays :: "date \<Rightarrow> bool" where
  \<comment> \<open>a holiday calendar without entries: only weekends are non-business days\<close>
  "no_holidays d = False"

definition row_sum :: "row \<Rightarrow> bool" where
  \<comment> \<open>the row-sum invariant of the specification, on the numbers the fields denote\<close>
  "row_sum r \<longleftrightarrow>
     dec_val (installment_amount r) =
       dec_val (principal_payment r) + dec_val (interest_payment r) + dec_val (bsmv r)
       + dec_val (commission_payment r)"

section \<open>Errors propagate through the monadic bind\<close>

lemma bind_err_simps [simp]:
  "bind_err (Inl e) f = Inl e"
  "bind_err (Inr x) f = f x"
  by (simp_all add: bind_err_def)

lemma bind_err_Inr_iff:
  "bind_err m f = Inr y \<longleftrightarrow> (\<exists>x. m = Inr x \<and> f x = Inr y)"
  by (cases m) simp_all

lemma bind_err_Inl_iff:
  "bind_err m f = Inl e \<longleftrightarrow> (m = Inl e \<or> (\<exists>x. m = Inr x \<and> f x = Inl e))"
  by (cases m) simp_all

lemma next_business_day_error:
  "next_business_day hol d = Inl e \<Longrightarrow> e = DateOutOfRange"
proof (induction hol d rule: next_business_day.induct)
  case (1 hol d)
  show ?case
  proof (cases "weekday d \<ge> 5 \<or> hol d")
    case False
    with "1.prems" show ?thesis by (simp add: next_business_day.simps [of hol d])
  next
    case True
    show ?thesis
    proof (cases "next_day d")
      case (Inl e')
      with True "1.prems" have "e = e'" by (simp add: next_business_day.simps [of hol d])
      moreover from Inl have "e' = DateOutOfRange"
        by (simp add: next_day_def split: if_splits)
      ultimately show ?thesis by simp
    next
      case (Inr d')
      with True "1.prems" have "next_business_day hol d' = Inl e"
        by (simp add: next_business_day.simps [of hol d])
      with "1.IH" True Inr show ?thesis by simp
    qed
  qed
qed

lemma add_months_error: "add_months d k = Inl e \<Longrightarrow> e = DateOutOfRange"
  by (simp add: add_months_def Let_def split: if_splits)

lemma lookup_error: "lookup al k = Inl e \<Longrightarrow> e = KeyError"
  by (simp add: lookup_def split: option.splits)

lemma schedule_step_error:
  assumes "schedule_step delta cpd st i = Inl e"
    and "frequency_to_days (cal_payment_frequency (snd st)) \<noteq> Inl UnsupportedFrequency"
  shows "e \<noteq> UnsupportedFrequency"
proof -
  obtain nom cal where st: "st = (nom, cal)" by (cases st)
  from assms show ?thesis
    unfolding st schedule_step_def
    by (auto simp: bind_err_Inl_iff frequency_to_days_def
          dest!: add_months_error next_business_day_error lookup_error split: if_splits)
qed

lemma schedule_step_frequency:
  "schedule_step delta cpd st i = Inr st' \<Longrightarrow>
     cal_payment_frequency (snd st') = cal_payment_frequency (snd st)"
  by (cases st) (auto simp: schedule_step_def bind_err_Inr_iff)

lemma schedule_loop_error:
  "schedule_loop delta cpd st ks = Inl e \<Longrightarrow>
   frequency_to_days (cal_payment_frequency (snd st)) \<noteq> Inl UnsupportedFrequency \<Longrightarrow>
   e \<noteq> UnsupportedFrequency"
proof (induction ks arbitrary: st)
  case Nil
  then show ?case by simp
next
  case (Cons k ks)
  show ?case
  proof (cases "schedule_step delta cpd st k")
    case (Inl e')
    with Cons.prems show ?thesis using schedule_step_error [of delta cpd st k e'] by simp
  next
    case (Inr st')
    with Cons.prems have "schedule_loop delta cpd st' ks = Inl e" by simp
    moreover from Inr have "cal_payment_frequency (snd st') = cal_payment_frequency (snd st)"
      by (rule schedule_step_frequency)
    ultimately show ?thesis using Cons.IH [of st'] Cons.prems(2) by simp
  qed
qed

section \<open>Unsupported payment frequencies\<close>

text \<open>
  Claim C9.  For every payment frequency other than "1m", "3m" and "6m",
  \<^verbatim>\<open>PaymentCalendar.generate_schedule\<close> raises the unsupported-frequency error (the
  specification's InvalidFrequency) and returns no schedule, and so does
  \<^verbatim>\<open>_frequency_to_days\<close>; for the three supported values neither of them raises that
  error.
\<close>

theorem invalid_frequency:
  "(cal_payment_frequency cal \<notin> {''1m'', ''3m'', ''6m''} \<longrightarrow>
      generate_schedule cal = Inl UnsupportedFrequency
      \<and> frequency_to_days (cal_payment_frequency cal) = Inl UnsupportedFrequency)
   \<and> (cal_payment_frequency cal \<in> {''1m'', ''3m'', ''6m''} \<longrightarrow>
      generate_schedule cal \<noteq> Inl UnsupportedFrequency
      \<and> frequency_to_days (cal_payment_frequency cal) \<noteq> Inl UnsupportedFrequency)"
proof (intro conjI impI)
  assume "cal_payment_frequency cal \<notin> {''1m'', ''3m'', ''6m''}"
  then show "generate_schedule cal = Inl UnsupportedFrequency"
    by (simp add: generate_schedule_def)
next
  assume "cal_payment_frequency cal \<notin> {''1m'', ''3m'', ''6m''}"
  then show "frequency_to_days (cal_payment_frequency cal) = Inl UnsupportedFrequency"
    by (simp add: frequency_to_days_def)
next
  assume f: "cal_payment_frequency cal \<in> {''1m'', ''3m'', ''6m''}"
  then show ok: "frequency_to_days (cal_payment_frequency cal) \<noteq> Inl UnsupportedFrequency"
    by (auto simp: frequency_to_days_def)
  show "generate_schedule cal \<noteq> Inl UnsupportedFrequency"
  proof
    assume "generate_schedule cal = Inl UnsupportedFrequency"
    with f have "\<exists>delta ks. schedule_loop delta (day (cal_start_date cal)) (cal_start_date cal, cal)
         ks = Inl UnsupportedFrequency"
      by (auto simp: generate_schedule_def frequency_to_days_def bind_err_Inl_iff
            split: if_splits prod.splits)
    with ok show False using schedule_loop_error by fastforce
  qed
qed

theorem invalid_frequency_witness:
  "''2w'' \<notin> {''1m'', ''3m'', ''6m''}
   \<and> generate_schedule (PaymentCalendar (Date 2024 1 10) 2 ''2w'' (\<lambda>d. False))
       = Inl UnsupportedFrequency
   \<and> ''3m'' \<in> {''1m'', ''3m'', ''6m''}
   \<and> generate_schedule (PaymentCalendar (Date 2024 1 10) 6 ''3m'' (\<lambda>d. False))
       \<noteq> Inl UnsupportedFrequency"
  using invalid_frequency [of "PaymentCalendar (Date 2024 1 10) 2 ''2w'' (\<lambda>d. False)"]
    invalid_frequency [of "PaymentCalendar (Date 2024 1 10) 6 ''3m'' (\<lambda>d. False)"]
  by (simp add: PaymentCalendar_def)

section \<open>The shape of a generated payment calendar\<close>

lemma update_fresh: "k \<notin> fst ` set al \<Longrightarrow> AList.update k v al = al @ [(k, v)]"
  by (induction al) auto

lemma schedule_step_result:
  assumes "schedule_step delta cpd (nom, cal) i = Inr (nom', cal')"
  shows "\<exists>sd start0 fd.
           cal' = cal\<lparr>cal_payment_dates := AList.update i sd (cal_payment_dates cal),
                      cal_accrual_days := AList.update i (days_between sd start0) (cal_accrual_days cal),
                      turkish_banking_accrual_days := AList.update i fd (turkish_banking_accrual_days cal)\<rparr>
           \<and> frequency_to_days (cal_payment_frequency cal) = Inr fd
           \<and> (if i > 1 then lookup (cal_payment_dates cal) (i - 1) else Inr (cal_start_date cal)) = Inr start0"
  using assms unfolding schedule_step_def
  by (auto simp: bind_err_Inr_iff split: if_splits)

lemma schedule_loop_shape:
  assumes "schedule_loop delta cpd (nom, cal) ks = Inr (nom', cal')"
    and "distinct (ks0 @ ks)"
    and "map fst (cal_payment_dates cal) = ks0"
    and "map fst (cal_accrual_days cal) = ks0"
    and "turkish_banking_accrual_days cal = map (\<lambda>k. (k, fd)) ks0"
    and "frequency_to_days (cal_payment_frequency cal) = Inr fd"
  shows "map fst (cal_payment_dates cal') = ks0 @ ks
       \<and> map fst (cal_accrual_days cal') = ks0 @ ks
       \<and> turkish_banking_accrual_days cal' = map (\<lambda>k. (k, fd)) (ks0 @ ks)
       \<and> cal_start_date cal' = cal_start_date cal
       \<and> cal_payment_frequency cal' = cal_payment_frequency cal"
  using assms
proof (induction ks arbitrary: nom cal ks0)
  case Nil
  then show ?case by simp
next
  case (Cons k ks)
  from Cons.prems(1) obtain nom1 cal1 where
    step: "schedule_step delta cpd (nom, cal) k = Inr (nom1, cal1)"
    and rest: "schedule_loop delta cpd (nom1, cal1) ks = Inr (nom', cal')"
    by (auto simp: bind_err_Inr_iff)
  from schedule_step_result [OF step] obtain sd start0 fd' where
    cal1: "cal1 = cal\<lparr>cal_payment_dates := AList.update k sd (cal_payment_dates cal),
                      cal_accrual_days := AList.update k (days_between sd start0) (cal_accrual_days cal),
                      turkish_banking_accrual_days := AList.update k fd' (turkish_banking_accrual_days cal)\<rparr>"
    and fd': "frequency_to_days (cal_payment_frequency cal) = Inr fd'"
    by blast
  from fd' Cons.prems(6) have [simp]: "fd' = fd" by simp
  from Cons.prems(2) have fresh: "k \<notin> set ks0" by auto
  have a: "map fst (cal_payment_dates cal1) = ks0 @ [k]"
    using fresh Cons.prems(3) by (simp add: cal1 update_fresh flip: set_map)
  have b: "map fst (cal_accrual_days cal1) = ks0 @ [k]"
    using fresh Cons.prems(4) by (simp add: cal1 update_fresh flip: set_map)
  have "k \<notin> fst ` set (map (\<lambda>k. (k, fd)) ks0)"
    using fresh by (auto simp: image_iff)
  then have c: "turkish_banking_accrual_days cal1 = map (\<lambda>k. (k, fd)) (ks0 @ [k])"
    using Cons.prems(5) by (simp add: cal1 update_fresh)
  have d: "frequency_to_days (cal_payment_frequency cal1) = Inr fd"
    using Cons.prems(6) by (simp add: cal1)
  have e: "distinct ((ks0 @ [k]) @ ks)" using Cons.prems(2) by simp
  from Cons.IH [OF rest e a b c d] show ?case by (simp add: cal1)
qed

lemma generate_schedule_shape:
  assumes "generate_schedule (PaymentCalendar s t f hol) = Inr cal"
  shows "\<exists>fd. frequency_to_days f = Inr fd
       \<and> map fst (cal_payment_dates cal) = [1..t * 30 div fd]
       \<and> map fst (cal_accrual_days cal) = [1..t * 30 div fd]
       \<and> turkish_banking_accrual_days cal = map (\<lambda>k. (k, fd)) [1..t * 30 div fd]
       \<and> cal_start_date cal = s \<and> cal_payment_frequency cal = f"
proof -
  from assms obtain delta fd nom where
    fd: "frequency_to_days f = Inr fd"
    and loop: "schedule_loop delta (day s) (s, PaymentCalendar s t f hol) [1..t * 30 div fd] = Inr (nom, cal)"
    by (auto simp: generate_schedule_def bind_err_Inr_iff PaymentCalendar_def split: prod.splits)
  have "distinct ([] @ [1..t * 30 div fd])" by simp
  from schedule_loop_shape [OF loop this, of fd] fd show ?thesis
    by (simp add: PaymentCalendar_def)
qed

section \<open>Scenario: weekend adjustment without drift\<close>

lemma next_business_day_weekend_only:
  "\<forall>d. hol d \<longrightarrow> 5 \<le> weekday d \<Longrightarrow>
   next_business_day hol d = next_business_day (\<lambda>d. False) d"
proof (induction hol d rule: next_business_day.induct)
  case (1 hol d)
  show ?case
  proof (cases "5 \<le> weekday d \<or> hol d")
    case False
    then show ?thesis
      by (simp add: next_business_day.simps [of hol d] next_business_day.simps [of "\<lambda>d. False" d])
  next
    case True
    with "1.prems" have w: "5 \<le> weekday d" by blast
    show ?thesis
    proof (cases "next_day d")
      case (Inl e)
      with w show ?thesis
        by (simp add: next_business_day.simps [of hol d] next_business_day.simps [of "\<lambda>d. False" d])
    next
      case (Inr d')
      with "1.IH" [OF True Inr "1.prems"] w show ?thesis
        by (simp add: next_business_day.simps [of hol d] next_business_day.simps [of "\<lambda>d. False" d])
    qed
  qed
qed

lemma scenario_dates:
  "add_months (Date 2024 1 10) 1 = Inr (Date 2024 2 10)"
  "add_months (Date 2024 2 10) 1 = Inr (Date 2024 3 10)"
  "replace_day (Date 2024 2 10) 10 = Date 2024 2 10"
  "replace_day (Date 2024 3 10) 10 = Date 2024 3 10"
  "weekday (Date 2024 1 10) = 2"
  "weekday (Date 2024 2 10) = 5"
  "weekday (Date 2024 3 10) = 6"
  "next_business_day (\<lambda>d. False) (Date 2024 2 10) = Inr (Date 2024 2 12)"
  "next_business_day (\<lambda>d. False) (Date 2024 3 10) = Inr (Date 2024 3 11)"
  "days_between (Date 2024 2 12) (Date 2024 1 10) = 33"
  "days_between (Date 2024 3 11) (Date 2024 2 12) = 28"
  by code_simp+

lemma upto_12: "[1..2::int] = [1, 2]"
  by code_simp

text \<open>
  Claim C5.  Start date 2024-01-10, monthly frequency, a term of two periods, and a
  holiday calendar that marks no weekday (so that the non-business days are exactly the
  Saturdays and Sundays): the payment dates are 2024-02-12 and 2024-03-11 with 33 and 28
  accrual days.  After the first period, paid on 2024-02-12, the nominal cursor is
  2024-02-10, so that the nominal anchor of the second period is 2024-03-10.
\<close>

theorem scenario_weekend_only:
  assumes "\<forall>d. hol d \<longrightarrow> 5 \<le> weekday d"
  shows "(\<exists>cal. generate_schedule (PaymentCalendar (Date 2024 1 10) 2 ''1m'' hol) = Inr cal
           \<and> cal_payment_dates cal = [(1, Date 2024 2 12), (2, Date 2024 3 11)]
           \<and> cal_accrual_days cal = [(1, 33), (2, 28)])
       \<and> (\<exists>cal1. schedule_step 1 10
                    (Date 2024 1 10, PaymentCalendar (Date 2024 1 10) 2 ''1m'' hol) 1
                  = Inr (Date 2024 2 10, cal1)
           \<and> cal_payment_dates cal1 = [(1, Date 2024 2 12)]
           \<and> add_months (Date 2024 2 10) 1 = Inr (Date 2024 3 10)
           \<and> replace_day (Date 2024 3 10) 10 = Date 2024 3 10)"
  by (simp add: generate_schedule_def PaymentCalendar_def frequency_to_days_def
        schedule_step_def upto_12 next_business_day_weekend_only [OF assms] scenario_dates
        lookup_def)

theorem scenario_weekend_only_witness:
  "(\<exists>cal. generate_schedule (PaymentCalendar (Date 2024 1 10) 2 ''1m'' (\<lambda>d. False)) = Inr cal
      \<and> cal_payment_dates cal = [(1, Date 2024 2 12), (2, Date 2024 3 11)]
      \<and> cal_accrual_days cal = [(1, 33), (2, 28)])"
  using scenario_weekend_only [of "\<lambda>d. False"] by simp

section \<open>Scenario: three equal principal payments\<close>

lemma scenario2_rows:
  "ep_calculate_schedule
     \<lparr>principal = Dec 12000000 (- 2), monthly_interest_rate = Dec 2 (- 2),
      commission = Dec 0 0, start_date = s, loan_term = 3,
      payment_frequency = ''1m'', bsmv_rate = Dec 5 (- 2),
      payment_dates = [(1, d1), (2, d2), (3, d3)],
      num_payments = 3, fixed_accrual_days = [(1, 30), (2, 30), (3, 30)],
      use_variable_accrual_days = False,
      actual_accrual_days = ad, fixed_principal = Dec 4000000 (- 2)\<rparr>
   = Inr [\<lparr>installment_number = 1, payment_date = d1, accrual_days = 30,
            principal_payment = Dec 4000000 (- 2), interest_payment = Dec 240000 (- 2),
            commission_payment = Dec 0 (- 2), bsmv = Dec 12000 (- 2),
            installment_amount = Dec 4252000 (- 2), remaining_principal = Dec 8000000 (- 2)\<rparr>,
          \<lparr>installment_number = 2, payment_date = d2, accrual_days = 30,
            principal_payment = Dec 4000000 (- 2), interest_payment = Dec 160000 (- 2),
            commission_payment = Dec 0 (- 2), bsmv = Dec 8000 (- 2),
            installment_amount = Dec 4168000 (- 2), remaining_principal = Dec 4000000 (- 2)\<rparr>,
          \<lparr>installment_number = 3, payment_date = d3, accrual_days = 30,
            principal_payment = Dec 4000000 (- 2), interest_payment = Dec 80000 (- 2),
            commission_payment = Dec 0 (- 2), bsmv = Dec 4000 (- 2),
            installment_amount = Dec 4084000 (- 2), remaining_principal = Dec 0 (- 2)\<rparr>]"
  by code_simp

lemma upto_13: "[1..3::int] = [1, 2, 3]"
  by code_simp

lemma keys_123:
  "map fst xs = [1, 2, 3::int] \<Longrightarrow> \<exists>d1 d2 d3. xs = [(1, d1), (2, d2), (3, d3)]"
  by (auto simp: map_eq_Cons_conv)

lemma scenario2_principal: "dec_div (Dec 12000000 (- 2)) (Dec 3 0) = Inr (Dec 4000000 (- 2))"
  by code_simp

text \<open>
  Claim C6.  Principal 120000.00, monthly rate 0.02, no commission, three monthly
  periods, BSMV rate 0.05 and the fixed convention: whatever the start date and the
  holiday calendar, a loan that can be constructed has the schedule of exactly three rows
  with principal 40000.00 each, interest 2400.00, 1600.00, 800.00, BSMV 120.00, 80.00,
  40.00, installments 42520.00, 41680.00, 40840.00 and remaining principal 80000.00,
  40000.00, 0.00, and no commission row.
\<close>

theorem scenario_equal_principal:
  assumes "EqualPrincipalLoan (Dec 12000000 (- 2)) (Dec 2 (- 2)) (Dec 0 0) start 3 ''1m''
             (Dec 5 (- 2)) hol False = Inr l"
  shows "\<exists>d1 d2 d3. ep_calculate_schedule l =
     Inr [\<lparr>installment_number = 1, payment_date = d1, accrual_days = 30,
            principal_payment = Dec 4000000 (- 2), interest_payment = Dec 240000 (- 2),
            commission_payment = Dec 0 (- 2), bsmv = Dec 12000 (- 2),
            installment_amount = Dec 4252000 (- 2), remaining_principal = Dec 8000000 (- 2)\<rparr>,
          \<lparr>installment_number = 2, payment_date = d2, accrual_days = 30,
            principal_payment = Dec 4000000 (- 2), interest_payment = Dec 160000 (- 2),
            commission_payment = Dec 0 (- 2), bsmv = Dec 8000 (- 2),
            installment_amount = Dec 4168000 (- 2), remaining_principal = Dec 4000000 (- 2)\<rparr>,
          \<lparr>installment_number = 3, payment_date = d3, accrual_days = 30,
            principal_payment = Dec 4000000 (- 2), interest_payment = Dec 80000 (- 2),
            commission_payment = Dec 0 (- 2), bsmv = Dec 4000 (- 2),
            installment_amount = Dec 4084000 (- 2), remaining_principal = Dec 0 (- 2)\<rparr>]"
proof -
  from assms obtain cal1 cal2 fp where
    gen: "generate_schedule (PaymentCalendar start 3 ''1m'' hol) = Inr cal1"
    and acc: "get_accrual_days cal1 = Inr cal2"
    and fp: "dec_div (Dec 12000000 (- 2)) (Dec (int (length (cal_payment_dates cal1))) 0) = Inr fp"
    and l: "l = \<lparr>principal = Dec 12000000 (- 2), monthly_interest_rate = Dec 2 (- 2),
             commission = Dec 0 0, start_date = start, loan_term = 3,
             payment_frequency = ''1m'', bsmv_rate = Dec 5 (- 2),
             payment_dates = cal_payment_dates cal2,
             num_payments = int (length (cal_payment_dates cal1)),
             fixed_accrual_days = map (\<lambda>k. (k, 30)) [1..int (length (cal_payment_dates cal1))],
             use_variable_accrual_days = False,
             actual_accrual_days = cal_accrual_days cal2, fixed_principal = fp\<rparr>"
    by (auto simp: EqualPrincipalLoan_def bind_err_Inr_iff Let_def)
  from generate_schedule_shape [OF gen]
  have keys: "map fst (cal_payment_dates cal1) = [1, 2, 3]"
    and keys': "map fst (cal_accrual_days cal1) = [1, 2, 3]"
    by (auto simp: frequency_to_days_def upto_13)
  from keys' have "cal_accrual_days cal1 \<noteq> []" by auto
  with acc have cal2: "cal2 = cal1" by (simp add: get_accrual_days_def)
  from keys_123 [OF keys] obtain d1 d2 d3
    where pd: "cal_payment_dates cal1 = [(1, d1), (2, d2), (3, d3)]"
    by auto
  from fp pd have fp': "fp = Dec 4000000 (- 2)" by (simp add: scenario2_principal)
  show ?thesis
    unfolding l cal2 pd fp' by (simp add: upto_13 scenario2_rows)
qed

lemma scenario2_loan:
  "EqualPrincipalLoan (Dec 12000000 (- 2)) (Dec 2 (- 2)) (Dec 0 0) (Date 2024 1 10) 3 ''1m''
     (Dec 5 (- 2)) (\<lambda>d. False) False
   = Inr \<lparr>principal = Dec 12000000 (- 2), monthly_interest_rate = Dec 2 (- 2),
          commission = Dec 0 0, start_date = Date 2024 1 10, loan_term = 3,
          payment_frequency = ''1m'', bsmv_rate = Dec 5 (- 2),
          payment_dates = [(1, Date 2024 2 12), (2, Date 2024 3 11), (3, Date 2024 4 10)],
          num_payments = 3, fixed_accrual_days = [(1, 30), (2, 30), (3, 30)],
          use_variable_accrual_days = False,
          actual_accrual_days = [(1, 33), (2, 28), (3, 30)],
          fixed_principal = Dec 4000000 (- 2)\<rparr>"
  by code_simp

theorem scenario_equal_principal_witness:
  "\<exists>l d1 d2 d3.
     EqualPrincipalLoan (Dec 12000000 (- 2)) (Dec 2 (- 2)) (Dec 0 0) (Date 2024 1 10) 3 ''1m''
       (Dec 5 (- 2)) (\<lambda>d. False) False = Inr l
     \<and> ep_calculate_schedule l =
     Inr [\<lparr>installment_number = 1, payment_date = d1, accrual_days = 30,
            principal_payment = Dec 4000000 (- 2), interest_payment = Dec 240000 (- 2),
            commission_payment = Dec 0 (- 2), bsmv = Dec 12000 (- 2),
            installment_amount = Dec 4252000 (- 2), remaining_principal = Dec 8000000 (- 2)\<rparr>,
          \<lparr>installment_number = 2, payment_date = d2, accrual_days = 30,
            principal_payment = Dec 4000000 (- 2), interest_payment = Dec 160000 (- 2),
            commission_payment = Dec 0 (- 2), bsmv = Dec 8000 (- 2),
            installment_amount = Dec 4168000 (- 2), remaining_principal = Dec 4000000 (- 2)\<rparr>,
          \<lparr>installment_number = 3, payment_date = d3, accrual_days = 30,
            principal_payment = Dec 4000000 (- 2), interest_payment = Dec 80000 (- 2),
            commission_payment = Dec 0 (- 2), bsmv = Dec 4000 (- 2),
            installment_amount = Dec 4084000 (- 2), remaining_principal = Dec 0 (- 2)\<rparr>]"
  using scenario_equal_principal [OF scenario2_loan] scenario2_loan by blast

section \<open>Degenerate schedules\<close>




section \<open>Facts about the decimal arithmetic\<close>

lemma ndigits_pos: "0 < ndigits n"
  by (subst ndigits.simps) simp

lemma ndigits_le_iff: "0 \<le> n \<Longrightarrow> 0 < k \<Longrightarrow> ndigits n \<le> k \<longleftrightarrow> n < 10 ^ k"
proof (induction n arbitrary: k rule: ndigits.induct)
  case (1 n)
  show ?case
  proof (cases "n < 10")
    case True
    have "(10::int) ^ 1 \<le> 10 ^ k" using "1.prems"(2) by (intro power_increasing) auto
    with True "1.prems" show ?thesis by (simp add: ndigits.simps [of n])
  next
    case False
    show ?thesis
    proof (cases k)
      case 0
      with "1.prems" show ?thesis by simp
    next
      case (Suc j)
      show ?thesis
      proof (cases "j = 0")
        case True
        with False Suc show ?thesis using ndigits_pos [of "n div 10"]
          by (simp add: ndigits.simps [of n])
      next
        case j: False
        from False "1.prems" have "0 \<le> n div 10" by simp
        from "1.IH" [OF False this, of j] j
        have "ndigits (n div 10) \<le> j \<longleftrightarrow> n div 10 < 10 ^ j" by simp
        also have "\<dots> \<longleftrightarrow> n < 10 ^ j * 10"
          by presburger
        finally show ?thesis using False Suc by (simp add: ndigits.simps [of n] mult.commute)
      qed
    qed
  qed
qed

lemma div_upper:
  fixes a q t :: int
  assumes "0 < t" "a < q * t"
  shows "a div t < q"
proof -
  have "a div t * t + a mod t = a" by simp
  moreover have "0 \<le> a mod t" using assms(1) by simp
  ultimately have "a div t * t < q * t" using assms(2) by linarith
  with assms(1) show ?thesis by (simp add: mult_less_cancel_right)
qed

lemma div_lower:
  fixes a q t :: int
  assumes "0 < t" "q * t \<le> a"
  shows "q \<le> a div t"
proof -
  have e: "a div t * t + a mod t = a" by simp
  have "a mod t < t" using assms(1) by simp
  with e assms(2) have "q * t < a div t * t + t" by linarith
  also have "\<dots> = (a div t + 1) * t" by (simp add: algebra_simps)
  finally have "q < a div t + 1" using assms(1) by (simp add: mult_less_cancel_right)
  then show ?thesis by simp
qed

lemma ndigits_gt_iff: "0 \<le> n \<Longrightarrow> 0 < k \<Longrightarrow> k < ndigits n \<longleftrightarrow> 10 ^ k \<le> n"
  using ndigits_le_iff [of n k] by auto

lemma dec_fix_small: "\<bar>coeff d\<bar> < 10 ^ 15 \<Longrightarrow> dec_fix d = d"
  by (simp add: dec_fix_def Let_def prec_def ndigits_le_iff)

lemma half_power_less: "(10::int) ^ k div 2 < 10 ^ k"
  by (rule int_div_less_self) simp_all

lemma round_half_up_abs: "\<bar>round_half_up c k\<bar> = (\<bar>c\<bar> + 10 ^ k div 2) div 10 ^ k"
proof -
  have "0 \<le> (\<bar>c\<bar> + 10 ^ k div 2) div (10::int) ^ k"
    by (intro pos_imp_zdiv_nonneg_iff [THEN iffD2]) auto
  moreover have "c = 0 \<Longrightarrow> (10 ^ k div 2) div (10::int) ^ k = 0"
    by (intro div_pos_pos_trivial) (auto simp: half_power_less)
  ultimately show ?thesis
    by (cases "c = 0") (auto simp: round_half_up_def abs_mult)
qed

lemma round_half_up_sgn:
  "0 \<le> c \<Longrightarrow> 0 \<le> round_half_up c k" "c \<le> 0 \<Longrightarrow> round_half_up c k \<le> 0"
proof -
  have nn: "0 \<le> (\<bar>c\<bar> + 10 ^ k div 2) div (10::int) ^ k"
    by (intro pos_imp_zdiv_nonneg_iff [THEN iffD2]) auto
  show "0 \<le> c \<Longrightarrow> 0 \<le> round_half_up c k"
    using nn by (simp add: round_half_up_def sgn_if)
  show "c \<le> 0 \<Longrightarrow> round_half_up c k \<le> 0"
    using nn by (simp add: round_half_up_def sgn_if)
qed

lemma round_half_up_bounds:
  fixes c :: int
  assumes "10 ^ (14 + k) \<le> \<bar>c\<bar>" "\<bar>c\<bar> < 10 ^ (15 + k)" "0 < k"
  shows "10 ^ 14 \<le> \<bar>round_half_up c k\<bar>" "\<bar>round_half_up c k\<bar> \<le> 10 ^ 15"
proof -
  let ?t = "(10::int) ^ k"
  have t: "0 < ?t" by simp
  have h: "0 \<le> ?t div 2" "?t div 2 < ?t" by (simp_all add: half_power_less)
  have "10 ^ 14 * ?t \<le> \<bar>c\<bar> + ?t div 2" using assms(1) h by (simp add: power_add)
  from div_lower [OF t this] show "10 ^ 14 \<le> \<bar>round_half_up c k\<bar>"
    by (simp add: round_half_up_abs)
  have "\<bar>c\<bar> + ?t div 2 < (10 ^ 15 + 1) * ?t"
    using assms(2) h by (simp add: power_add algebra_simps)
  from div_upper [OF t this] show "\<bar>round_half_up c k\<bar> \<le> 10 ^ 15"
    by (simp add: round_half_up_abs)
qed

lemma ndigits_bounds:
  assumes "0 \<le> n" "1 < ndigits n"
  shows "10 ^ (ndigits n - 1) \<le> n" "n < 10 ^ ndigits n"
proof -
  show "n < 10 ^ ndigits n" using ndigits_le_iff [of n "ndigits n"] assms by simp
  show "10 ^ (ndigits n - 1) \<le> n" using ndigits_gt_iff [of n "ndigits n - 1"] assms by simp
qed

lemma dec_fix_large:
  assumes "10 ^ 15 \<le> \<bar>coeff d\<bar>"
  shows "\<exists>c k. dec_fix d = Dec c (expo d + int k) \<and> 0 < k
           \<and> 10 ^ 14 \<le> \<bar>c\<bar> \<and> \<bar>c\<bar> < 10 ^ 15
           \<and> (0 \<le> coeff d \<longrightarrow> 0 \<le> c) \<and> (coeff d \<le> 0 \<longrightarrow> c \<le> 0)"
proof -
  let ?n = "ndigits \<bar>coeff d\<bar>"
  from assms have n: "15 < ?n" by (simp add: ndigits_gt_iff)
  define k where "k = ?n - 15"
  with n have k: "0 < k" "?n = 15 + k" "?n - 1 = 14 + k" by simp_all
  define c where "c = round_half_up (coeff d) k"
  from ndigits_bounds [of "\<bar>coeff d\<bar>"] n k
  have "10 ^ (14 + k) \<le> \<bar>coeff d\<bar>" "\<bar>coeff d\<bar> < 10 ^ (15 + k)" by simp_all
  from round_half_up_bounds [OF this k(1)]
  have b: "10 ^ 14 \<le> \<bar>c\<bar>" "\<bar>c\<bar> \<le> 10 ^ 15" by (simp_all add: c_def)
  have s: "0 \<le> coeff d \<longrightarrow> 0 \<le> c" "coeff d \<le> 0 \<longrightarrow> c \<le> 0"
    by (simp_all add: c_def round_half_up_sgn)
  show ?thesis
  proof (cases "\<bar>c\<bar> < 10 ^ 15")
    case True
    then have "\<not> 15 < ndigits \<bar>c\<bar>" by (simp add: ndigits_gt_iff)
    with n have "dec_fix d = Dec c (expo d + int k)"
      by (simp add: dec_fix_def Let_def prec_def c_def k_def)
    with k(1) b(1) True s show ?thesis by blast
  next
    case False
    with b(2) have e: "\<bar>c\<bar> = 10 ^ 15" by simp
    then have "15 < ndigits \<bar>c\<bar>" by (simp add: ndigits_gt_iff)
    with n have f: "dec_fix d = Dec (c div 10) (expo d + int (Suc k))"
      by (simp add: dec_fix_def Let_def prec_def c_def k_def)
    from e have "c = 10 ^ 15 \<or> c = - (10 ^ 15)" by linarith
    then have "10 ^ 14 \<le> \<bar>c div 10\<bar> \<and> \<bar>c div 10\<bar> < 10 ^ 15
        \<and> (0 \<le> c \<longrightarrow> 0 \<le> c div 10) \<and> (c \<le> 0 \<longrightarrow> c div 10 \<le> 0)"
      by auto
    with f s show ?thesis by (intro exI [of _ "c div 10"] exI [of _ "Suc k"]) auto
  qed
qed

lemma dec_fix_digits: "\<bar>coeff (dec_fix d)\<bar> < 10 ^ 15"
proof (cases "\<bar>coeff d\<bar> < 10 ^ 15")
  case True
  then show ?thesis by (simp add: dec_fix_small)
next
  case False
  then have "10 ^ 15 \<le> \<bar>coeff d\<bar>" by simp
  from dec_fix_large [OF this] show ?thesis by auto
qed

lemma dec_fix_sgn:
  "0 \<le> coeff d \<Longrightarrow> 0 \<le> coeff (dec_fix d)" "coeff d \<le> 0 \<Longrightarrow> coeff (dec_fix d) \<le> 0"
proof -
  show "0 \<le> coeff d \<Longrightarrow> 0 \<le> coeff (dec_fix d)"
    using dec_fix_large [of d] dec_fix_small [of d] by (cases "\<bar>coeff d\<bar> < 10 ^ 15") auto
  show "coeff d \<le> 0 \<Longrightarrow> coeff (dec_fix d) \<le> 0"
    using dec_fix_large [of d] dec_fix_small [of d] by (cases "\<bar>coeff d\<bar> < 10 ^ 15") auto
qed

lemma rescale_expo [simp]: "expo (rescale d e) = e"
  by (simp add: rescale_def)

lemma rescale_sgn:
  "0 \<le> coeff d \<Longrightarrow> 0 \<le> coeff (rescale d e)" "coeff d \<le> 0 \<Longrightarrow> coeff (rescale d e) \<le> 0"
  by (simp_all add: rescale_def round_half_up_sgn mult_nonpos_nonneg)

lemma quantize_Inr:
  assumes "quantize d e = Inr q"
  shows "expo q = e" "\<bar>coeff q\<bar> < 10 ^ 15"
    "0 \<le> coeff d \<Longrightarrow> 0 \<le> coeff q" "coeff d \<le> 0 \<Longrightarrow> coeff q \<le> 0"
proof -
  have "q = Dec 0 e \<or> (q = rescale d e \<and> \<not> 15 < ndigits \<bar>coeff q\<bar>)"
    using assms by (auto simp: quantize_def Let_def prec_def split: if_splits)
  then have "expo q = e \<and> \<bar>coeff q\<bar> < 10 ^ 15
      \<and> (0 \<le> coeff d \<longrightarrow> 0 \<le> coeff q) \<and> (coeff d \<le> 0 \<longrightarrow> coeff q \<le> 0)"
    by (auto simp: ndigits_gt_iff rescale_sgn)
  then show "expo q = e" "\<bar>coeff q\<bar> < 10 ^ 15"
    "0 \<le> coeff d \<Longrightarrow> 0 \<le> coeff q" "coeff d \<le> 0 \<Longrightarrow> coeff q \<le> 0"
    by simp_all
qed

lemma quantize_same:
  assumes "\<bar>c\<bar> < 10 ^ 15"
  shows "quantize (Dec c e) e = Inr (Dec c e)"
proof -
  from assms have "ndigits \<bar>c\<bar> \<le> 15" by (simp add: ndigits_le_iff)
  then show ?thesis
    by (simp add: quantize_def adjusted_def rescale_def Let_def prec_def)
qed

lemma quantize_overflow:
  assumes "10 ^ 14 \<le> \<bar>coeff d\<bar>" "e < expo d"
  shows "quantize d e = Inl InvalidOperation"
proof -
  from assms(1) have "14 < ndigits \<bar>coeff d\<bar>" by (simp add: ndigits_gt_iff)
  moreover from assms(1) have "coeff d \<noteq> 0" by auto
  ultimately show ?thesis using assms(2)
    by (simp add: quantize_def adjusted_def prec_def)
qed

lemma dec_add_same_expo: "dec_add (Dec a e) (Dec b e) = dec_fix (Dec (a + b) e)"
  by (simp add: dec_add_def)

lemma dec_add_higher_expo:
  "dec_add (Dec a (e + int k)) (Dec b e) = dec_fix (Dec (a * 10 ^ k + b) e)"
  by (simp add: dec_add_def Let_def)

lemma add3_quantize:
  assumes a: "\<bar>a\<bar> < 10 ^ 15" and i: "\<bar>i\<bar> < 10 ^ 15" and b: "\<bar>b\<bar> < 10 ^ 15"
    and s: "0 \<le> i \<longrightarrow> 0 \<le> b" "i \<le> 0 \<longrightarrow> b \<le> 0"
    and q: "quantize (dec_add (dec_add (Dec a e) (Dec i e)) (Dec b e)) e = Inr q"
  shows "q = Dec (a + i + b) e"
proof (cases "\<bar>a + i\<bar> < 10 ^ 15")
  case True
  then have s1: "dec_add (Dec a e) (Dec i e) = Dec (a + i) e"
    by (simp add: dec_add_same_expo dec_fix_small)
  show ?thesis
  proof (cases "\<bar>a + i + b\<bar> < 10 ^ 15")
    case True
    then have "dec_add (Dec (a + i) e) (Dec b e) = Dec (a + i + b) e"
      by (simp add: dec_add_same_expo dec_fix_small)
    with q s1 True show ?thesis by (simp add: quantize_same)
  next
    case False
    then have "10 ^ 15 \<le> \<bar>coeff (Dec (a + i + b) e)\<bar>" by simp
    from dec_fix_large [OF this] obtain c k where
      "dec_fix (Dec (a + i + b) e) = Dec c (e + int k)" "0 < k" "10 ^ 14 \<le> \<bar>c\<bar>"
      by auto
    then have "quantize (dec_fix (Dec (a + i + b) e)) e = Inl InvalidOperation"
      by (simp add: quantize_overflow)
    with q s1 show ?thesis by (simp add: dec_add_same_expo)
  qed
next
  case False
  then have big: "10 ^ 15 \<le> \<bar>coeff (Dec (a + i) e)\<bar>" by simp
  from dec_fix_large [OF this] obtain c k where
    f: "dec_fix (Dec (a + i) e) = Dec c (e + int k)" and k: "0 < k"
    and c: "10 ^ 14 \<le> \<bar>c\<bar>" "0 \<le> a + i \<longrightarrow> 0 \<le> c" "a + i \<le> 0 \<longrightarrow> c \<le> 0"
    by auto
  have t: "(10::int) \<le> 10 ^ k" using k power_increasing [of 1 k "10::int"] by simp
  have "10 ^ 15 \<le> \<bar>c * 10 ^ k + b\<bar>"
  proof (cases "0 \<le> a + i")
    case True
    with False a i have "0 < i" by linarith
    with s have "0 \<le> b" by simp
    moreover from True c have "10 ^ 14 \<le> c" by simp
    then have "10 ^ 14 * 10 \<le> c * 10 ^ k" using t by (intro mult_mono) auto
    ultimately show ?thesis by simp
  next
    case neg: False
    with False a i have "i < 0" by linarith
    with s have "b \<le> 0" by simp
    moreover from neg c have "10 ^ 14 \<le> - c" by simp
    then have "10 ^ 14 * 10 \<le> (- c) * 10 ^ k" using t by (intro mult_mono) auto
    ultimately show ?thesis by simp
  qed
  then have "10 ^ 15 \<le> \<bar>coeff (Dec (c * 10 ^ k + b) e)\<bar>" by simp
  from dec_fix_large [OF this] obtain c' k' where
    "dec_fix (Dec (c * 10 ^ k + b) e) = Dec c' (e + int k')" "0 < k'" "10 ^ 14 \<le> \<bar>c'\<bar>"
    by auto
  then have "quantize (dec_fix (Dec (c * 10 ^ k + b) e)) e = Inl InvalidOperation"
    by (simp add: quantize_overflow)
  with q f show ?thesis by (simp add: dec_add_same_expo dec_add_higher_expo)
qed

lemma dec_mul_sgn:
  "0 \<le> coeff a \<Longrightarrow> 0 \<le> coeff b \<Longrightarrow> 0 \<le> coeff (dec_mul a b)"
  "coeff a \<le> 0 \<Longrightarrow> 0 \<le> coeff b \<Longrightarrow> coeff (dec_mul a b) \<le> 0"
  by (simp_all add: dec_mul_def dec_fix_sgn mult_nonpos_nonneg)

section \<open>The rows appended by the amortization loops\<close>

lemma decimal_collapse: "expo q = e \<Longrightarrow> q = Dec (coeff q) e"
  by (cases q) simp

lemma ei_step_row:
  assumes "ei_step l (rem, sched) k = Inr (rem', sched')"
  shows "\<exists>interest tax pp inst pdate days remq.
     quantize (dec_mul rem (fixed_period_rate l)) CENTS = Inr interest \<and>
     quantize (dec_mul interest (bsmv_rate l)) CENTS = Inr tax \<and>
     quantize (dec_sub (dec_sub (fixed_installment l) interest) tax) CENTS = Inr pp \<and>
     quantize (dec_add (dec_add pp interest) tax) CENTS = Inr inst \<and>
     lookup (payment_dates l) k = Inr pdate \<and>
     lookup (fixed_accrual_days l) k = Inr days \<and>
     quantize (dec_sub rem pp) CENTS = Inr remq \<and>
     rem' = dec_sub rem pp \<and>
     sched' = sched @ [\<lparr>installment_number = k, payment_date = pdate, accrual_days = days,
                         principal_payment = pp, interest_payment = interest,
                         commission_payment = Dec 0 (- 2), bsmv = tax,
                         installment_amount = inst, remaining_principal = remq\<rparr>]"
  using assms by (auto simp: ei_step_def bind_err_Inr_iff)

lemma ep_step_row:
  assumes "ep_step l (rem, sched) k = Inr (rem', sched')"
  shows "\<exists>period_rate interest tax pp inst pdate days remq.
     (if use_variable_accrual_days l
      then lookup (actual_accrual_days l) k = Inr days
      else lookup (fixed_accrual_days l) k = Inr days \<and> period_rate = fixed_period_rate l) \<and>
     quantize (dec_mul rem period_rate) CENTS = Inr interest \<and>
     quantize (dec_mul interest (bsmv_rate l)) CENTS = Inr tax \<and>
     quantize (dec_add (dec_add (fixed_principal l) interest) tax) CENTS = Inr inst \<and>
     lookup (payment_dates l) k = Inr pdate \<and>
     quantize (fixed_principal l) CENTS = Inr pp \<and>
     quantize (dec_sub rem (fixed_principal l)) CENTS = Inr remq \<and>
     rem' = dec_sub rem (fixed_principal l) \<and>
     sched' = sched @ [\<lparr>installment_number = k, payment_date = pdate, accrual_days = days,
                         principal_payment = pp, interest_payment = interest,
                         commission_payment = Dec 0 (- 2), bsmv = tax,
                         installment_amount = inst, remaining_principal = remq\<rparr>]"
  using assms unfolding ep_step_def
  by (auto simp: bind_err_Inr_iff split: if_splits)

lemma ei_loop_rows:
  assumes "ei_loop l (rem, sched) ks = Inr (rem', sched')"
    and "\<forall>r\<in>set sched. Q r"
    and "\<And>rem sched k rem' sched'. ei_step l (rem, sched) k = Inr (rem', sched') \<Longrightarrow>
           k \<in> set ks \<Longrightarrow> \<exists>r. sched' = sched @ [r] \<and> Q r"
  shows "\<forall>r\<in>set sched'. Q r"
  using assms
proof (induction ks arbitrary: rem sched)
  case Nil
  then show ?case by simp
next
  case (Cons k ks)
  from Cons.prems(1) obtain rem1 sched1 where
    step: "ei_step l (rem, sched) k = Inr (rem1, sched1)"
    and rest: "ei_loop l (rem1, sched1) ks = Inr (rem', sched')"
    by (auto simp: bind_err_Inr_iff)
  from Cons.prems(3) [OF step] obtain r where "sched1 = sched @ [r]" "Q r" by auto
  with Cons.prems(2) have "\<forall>r\<in>set sched1. Q r" by auto
  from Cons.IH [OF rest this] Cons.prems(3) show ?case by auto
qed

lemma ep_loop_rows:
  assumes "ep_loop l (rem, sched) ks = Inr (rem', sched')"
    and "\<forall>r\<in>set sched. Q r"
    and "\<And>rem sched k rem' sched'. ep_step l (rem, sched) k = Inr (rem', sched') \<Longrightarrow>
           k \<in> set ks \<Longrightarrow> \<exists>r. sched' = sched @ [r] \<and> Q r"
  shows "\<forall>r\<in>set sched'. Q r"
  using assms
proof (induction ks arbitrary: rem sched)
  case Nil
  then show ?case by simp
next
  case (Cons k ks)
  from Cons.prems(1) obtain rem1 sched1 where
    step: "ep_step l (rem, sched) k = Inr (rem1, sched1)"
    and rest: "ep_loop l (rem1, sched1) ks = Inr (rem', sched')"
    by (auto simp: bind_err_Inr_iff)
  from Cons.prems(3) [OF step] obtain r where "sched1 = sched @ [r]" "Q r" by auto
  with Cons.prems(2) have "\<forall>r\<in>set sched1. Q r" by auto
  from Cons.IH [OF rest this] Cons.prems(3) show ?case by auto
qed

lemma ei_schedule_rows:
  assumes "ei_calculate_schedule l = Inr rows"
    and "\<And>c. commission_row l = Inr c \<Longrightarrow> \<forall>r\<in>set c. Q r"
    and "\<And>rem sched k rem' sched'. ei_step l (rem, sched) k = Inr (rem', sched') \<Longrightarrow>
           1 \<le> k \<Longrightarrow> k \<le> num_payments l \<Longrightarrow> \<exists>r. sched' = sched @ [r] \<and> Q r"
  shows "\<forall>r\<in>set rows. Q r"
proof -
  from assms(1) obtain c rem' where c: "commission_row l = Inr c"
    and loop: "ei_loop l (principal l, c) [1..num_payments l] = Inr (rem', rows)"
    by (auto simp: ei_calculate_schedule_def bind_err_Inr_iff)
  show ?thesis
    by (rule ei_loop_rows [OF loop assms(2) [OF c]]) (use assms(3) in auto)
qed

lemma ep_schedule_rows:
  assumes "ep_calculate_schedule l = Inr rows"
    and "\<And>c. commission_row l = Inr c \<Longrightarrow> \<forall>r\<in>set c. Q r"
    and "\<And>rem sched k rem' sched'. ep_step l (rem, sched) k = Inr (rem', sched') \<Longrightarrow>
           1 \<le> k \<Longrightarrow> k \<le> num_payments l \<Longrightarrow> \<exists>r. sched' = sched @ [r] \<and> Q r"
  shows "\<forall>r\<in>set rows. Q r"
proof -
  from assms(1) obtain c rem' where c: "commission_row l = Inr c"
    and loop: "ep_loop l (principal l, c) [1..num_payments l] = Inr (rem', rows)"
    by (auto simp: ep_calculate_schedule_def bind_err_Inr_iff)
  show ?thesis
    by (rule ep_loop_rows [OF loop assms(2) [OF c]]) (use assms(3) in auto)
qed

lemma commission_row_cases:
  assumes "commission_row l = Inr c"
  shows "c = [] \<or> (\<exists>ca cb inst remq.
      quantize (dec_mul (principal l) (commission l)) CENTS = Inr ca \<and>
      quantize (dec_mul ca (bsmv_rate l)) CENTS = Inr cb \<and>
      quantize (dec_add ca cb) CENTS = Inr inst \<and>
      quantize (principal l) CENTS = Inr remq \<and>
      c = [\<lparr>installment_number = 0, payment_date = start_date l, accrual_days = 0,
              principal_payment = Dec 0 (- 2), interest_payment = Dec 0 (- 2),
              commission_payment = ca, bsmv = cb,
              installment_amount = inst, remaining_principal = remq\<rparr>])"
  using assms by (auto simp: commission_row_def bind_err_Inr_iff split: if_splits)

end
